theory Spec2Isabelle
  imports Complex_Main "HOL-Library.Word"
begin

section \<open>Data model\<close>

subsection \<open>Wire entities (app/models.py)\<close>

text \<open>
  Python's \<open>decimal.Decimal\<close>, finite values only: a sign, a coefficient and an exponent,
  standing for \<open>(-1)^sign * coefficient * 10^exponent\<close>. Nothing in it is a binary float.
\<close>

record Decimal =
  sign :: bool
  coefficient :: nat
  exponent :: int

definition decimal_value :: "Decimal \<Rightarrow> rat" where
  "decimal_value d =
     (let m = (if sign d then - of_nat (coefficient d) else of_nat (coefficient d))
      in if 0 \<le> exponent d then m * 10 ^ nat (exponent d) else m / 10 ^ nat (- exponent d))"

text \<open>
  \<^verbatim>\<open>
  class HelloResponse(BaseModel):
      message: str

  class EmgRecord(BaseModel):
      timestamp: int  # milliseconds since custom epoch (2025-06-22T00:00:00 UTC)
      rawValue: Decimal
  \<close>
  \<open>timestamp\<close> is a Python \<open>int\<close>: unbounded.
\<close>

record HelloResponse =
  message :: string

record EmgRecord =
  timestamp :: int
  rawValue :: Decimal

subsection \<open>Persisted entities (app/models\_db.py)\<close>

text \<open>
  \<^verbatim>\<open>
  class EmgRecordDB(Base):
      __tablename__ = "emg_records"
      id = Column(Integer, primary_key=True, index=True)
      timestamp = Column(BigInteger, nullable=False)  # ms since custom epoch
      rawValue = Column(Numeric, nullable=False)
      created_at = Column(DateTime(timezone=True), server_default=func.timezone('utc', func.now()))
  \<close>
  The class is two things. An instance built by the constructor is a Python object whose
  \<open>id\<close> and \<open>created_at\<close> are still \<open>None\<close> and whose \<open>timestamp\<close> is still a
  Python \<open>int\<close>: record \<open>EmgRecordDB\<close>. A row of the table \<open>emg_records\<close> has the
  column types: the primary key filled from its sequence, \<open>timestamp\<close> a 64-bit signed
  integer (\<open>BigInteger\<close>), \<open>rawValue\<close> an exact decimal (\<open>Numeric\<close>), \<open>created_at\<close>
  filled by the server default: record \<open>emg_records_row\<close>. Instants are integers.
\<close>

record EmgRecordDB =
  id :: "int option"
  timestamp :: int
  rawValue :: Decimal
  created_at :: "int option"

record emg_records_row =
  id :: int
  timestamp :: "64 word"
  rawValue :: Decimal
  created_at :: int

definition in_BigInteger :: "int \<Rightarrow> bool" where
  "in_BigInteger t \<longleftrightarrow> - (2 ^ 63) \<le> t \<and> t < 2 ^ 63"

section \<open>The persistence context\<close>

text \<open>
  The handlers work on an SQLAlchemy \<open>Session\<close> bound to the engine of app/db.py. The
  engine is modelled by what a request can observe of it: the committed rows of
  \<open>emg_records\<close> (oldest first), the primary-key sequence, the server clock, every
  statement sent to it so far (oldest first), and the environment's choice of which
  statements fail: \<open>fails e k\<close> says that statement number \<open>k\<close> (counting from 0 over
  the engine's whole life) is lost or refused, for any reason outside the program
  (connection loss, transaction abort, a limit of the store).
\<close>

datatype statement = INSERT EmgRecordDB | COMMIT | ROLLBACK

datatype StorageError = DataError | OperationalError

record engine =
  emg_records :: "emg_records_row list"
  id_seq :: int
  utc_now :: int
  sent :: "statement list"
  fails :: "nat \<Rightarrow> bool"

text \<open>
  A session holds the objects added and not yet flushed (\<open>pending\<close>) and the rows its open
  transaction has inserted (\<open>txn\<close>), which no one else sees until COMMIT.
\<close>

record Session =
  bind :: engine
  pending :: "EmgRecordDB list"
  txn :: "emg_records_row list"

text \<open>
  Modelled from the spec: app/db.py (\<open>engine\<close>, \<open>SessionLocal\<close>, \<open>Base\<close>) is not among the
  sources. \<open>SessionLocal()\<close> is the session factory: each call gives a new, empty session on
  the engine (section 5: one connection per call, no state shared between requests).
\<close>

definition SessionLocal :: "engine \<Rightarrow> Session" where
  "SessionLocal e = \<lparr>bind = e, pending = [], txn = []\<rparr>"

text \<open>Sending one statement: it is logged, and the environment decides whether it goes through.\<close>

definition execute :: "statement \<Rightarrow> engine \<Rightarrow> bool \<times> engine" where
  "execute s e = (\<not> fails e (length (sent e)), e\<lparr>sent := sent e @ [s]\<rparr>)"

text \<open>
  The INSERT of one object. A lost statement raises \<open>OperationalError\<close>; a \<open>timestamp\<close>
  outside the 64-bit signed range of the \<open>BigInteger\<close> column raises \<open>DataError\<close>.
  Otherwise the row joins the open transaction. A column the object leaves \<open>None\<close> is
  filled by the store: \<open>id\<close> with the next value of the sequence, \<open>created_at\<close> with the
  server's clock. A value drawn from the sequence is not given back by a rollback.
\<close>

definition insert_row :: "EmgRecordDB \<Rightarrow> Session \<Rightarrow> StorageError option \<times> Session" where
  "insert_row obj db =
     (case execute (INSERT obj) (bind db) of
        (ok, e) \<Rightarrow>
          if \<not> ok then (Some OperationalError, db\<lparr>bind := e\<rparr>)
          else if \<not> in_BigInteger (EmgRecordDB.timestamp obj) then (Some DataError, db\<lparr>bind := e\<rparr>)
          else
            (case (case EmgRecordDB.id obj of
                     None \<Rightarrow> (id_seq e + 1, e\<lparr>id_seq := id_seq e + 1\<rparr>)
                   | Some i \<Rightarrow> (i, e)) of
               (n, e') \<Rightarrow>
                 (None,
                  db\<lparr>bind := e',
                     txn := txn db @
                       [\<lparr>id = n,
                         timestamp = word_of_int (EmgRecordDB.timestamp obj),
                         rawValue = EmgRecordDB.rawValue obj,
                         created_at = (case EmgRecordDB.created_at obj of
                                         None \<Rightarrow> utc_now e | Some t \<Rightarrow> t)\<rparr>]\<rparr>)))"

text \<open>Flushing inserts the objects one by one, in the order they were added, and stops at the first error.\<close>

fun flush :: "EmgRecordDB list \<Rightarrow> Session \<Rightarrow> StorageError option \<times> Session" where
  "flush [] db = (None, db)"
| "flush (obj # objs) db =
     (case insert_row obj db of
        (Some err, db') \<Rightarrow> (Some err, db')
      | (None, db') \<Rightarrow> flush objs db')"

definition rollback :: "Session \<Rightarrow> Session" where
  "rollback db = db\<lparr>bind := snd (execute ROLLBACK (bind db)), pending := [], txn := []\<rparr>"

text \<open>\<open>db.add_all(objs)\<close>: the objects become pending, after those already pending.\<close>

definition add_all :: "Session \<Rightarrow> EmgRecordDB list \<Rightarrow> Session" where
  "add_all db objs = db\<lparr>pending := pending db @ objs\<rparr>"

text \<open>
  \<open>db.commit()\<close>: flush what is pending, then COMMIT (also when nothing was pending: an
  empty commit). Only a COMMIT that goes through makes the transaction's rows visible. An
  error in the flush or in the COMMIT rolls the transaction back and is raised to the caller.
\<close>

definition commit :: "Session \<Rightarrow> StorageError option \<times> Session" where
  "commit db =
     (case flush (pending db) (db\<lparr>pending := []\<rparr>) of
        (Some err, db') \<Rightarrow> (Some err, rollback db')
      | (None, db') \<Rightarrow>
          (case execute COMMIT (bind db') of
             (ok, e) \<Rightarrow>
               if ok then (None, db'\<lparr>bind := e\<lparr>emg_records := emg_records e @ txn db'\<rparr>, txn := []\<rparr>)
               else (Some OperationalError, rollback (db'\<lparr>bind := e\<rparr>))))"

text \<open>\<open>db.close()\<close>: whatever is pending or uncommitted is dropped.\<close>

definition close :: "Session \<Rightarrow> Session" where
  "close db = db\<lparr>pending := [], txn := []\<rparr>"

section \<open>Storage writer (app/crud.py)\<close>

text \<open>
  \<^verbatim>\<open>
  def create_emg_records(db: Session, records: List[EmgRecord]):
      db_records = [EmgRecordDB(timestamp=r.timestamp, rawValue=r.rawValue) for r in records]
      db.add_all(db_records)
      db.commit()
      # No need to refresh or return records
      return
  \<close>
  The function returns nothing; \<open>Some err\<close> is the exception that leaves it.
\<close>

definition create_emg_records :: "Session \<Rightarrow> EmgRecord list \<Rightarrow> StorageError option \<times> Session" where
  "create_emg_records db records =
     (let db_records =
            map (\<lambda>r. \<lparr>EmgRecordDB.id = None, timestamp = EmgRecord.timestamp r,
                      rawValue = EmgRecord.rawValue r, created_at = None\<rparr>) records;
          db = add_all db db_records
      in commit db)"

section \<open>Endpoints (app/api/emg.py, app/api/endpoints.py)\<close>

text \<open>Decoded JSON: what the handlers return, and what a request body is before validation.
  A number written with a fraction or an exponent is decoded to a binary float:
  \<open>JFloat s m e\<close> is the finite float \<open>(-1)^s * m * 2^e\<close>, \<open>JNonFinite\<close> an infinity or
  a NaN. An object is a Python dictionary, written as the list of its items: the keys are
  distinct, and a key is looked up with \<open>map_of\<close>.\<close>

datatype json =
    JNull
  | JBool bool
  | JInt int
  | JFloat bool int int
  | JNonFinite
  | JStr string
  | JList "json list"
  | JDict "(string \<times> json) list"

datatype response =
    JSONResponse nat json
  | RequestValidationError
  | ServerError StorageError

fun status_code :: "response \<Rightarrow> nat" where
  "status_code (JSONResponse code content) = code"
| "status_code RequestValidationError = 422"
| "status_code (ServerError err) = 500"

definition HTTP_200_OK :: nat where
  "HTTP_200_OK = 200"

definition HTTP_201_CREATED :: nat where
  "HTTP_201_CREATED = 201"

text \<open>
  \<^verbatim>\<open>
  def get_db():
      db = SessionLocal()
      try:
          yield db
      finally:
          db.close()
  \<close>
  The dependency wraps the handler: the session is closed however the handler ends.
\<close>

definition get_db :: "engine \<Rightarrow> (Session \<Rightarrow> 'a \<times> Session) \<Rightarrow> 'a \<times> engine" where
  "get_db e handler =
     (let db = SessionLocal e
      in case handler db of (result, db') \<Rightarrow> (result, bind (close db')))"

text \<open>
  \<^verbatim>\<open>
  @emg_router.post("/records", status_code=status.HTTP_201_CREATED)
  def receive_emg_records(records: List[EmgRecord], db: Session = Depends(get_db)):
      create_emg_records(db, records)
      return {"status": "Data Saved", "count": len(records)}

  @emg_router.post("/record", status_code=status.HTTP_201_CREATED)
  def receive_emg_record(record: EmgRecord, db: Session = Depends(get_db)):
      create_emg_records(db, [record])
      return {"status": "Data Saved", "count": 1}
  \<close>
  A handler returns its dictionary, or the exception of \<open>create_emg_records\<close> leaves it.
\<close>

definition receive_emg_records :: "EmgRecord list \<Rightarrow> Session \<Rightarrow> (StorageError + json) \<times> Session" where
  "receive_emg_records records db =
     (case create_emg_records db records of
        (Some err, db') \<Rightarrow> (Inl err, db')
      | (None, db') \<Rightarrow>
          (Inr (JDict [(''status'', JStr ''Data Saved''), (''count'', JInt (int (length records)))]), db'))"

definition receive_emg_record :: "EmgRecord \<Rightarrow> Session \<Rightarrow> (StorageError + json) \<times> Session" where
  "receive_emg_record record db =
     (case create_emg_records db [record] of
        (Some err, db') \<Rightarrow> (Inl err, db')
      | (None, db') \<Rightarrow>
          (Inr (JDict [(''status'', JStr ''Data Saved''), (''count'', JInt 1)]), db'))"

text \<open>
  A handler under its route decorator: the session comes from \<open>get_db\<close>, the returned
  dictionary is sent with the route's status code, and an exception that leaves the
  handler is answered with a server error.
\<close>

definition route :: "nat \<Rightarrow> (Session \<Rightarrow> (StorageError + json) \<times> Session) \<Rightarrow> engine \<Rightarrow> response \<times> engine" where
  "route code handler e =
     (case get_db e handler of
        (Inl err, e') \<Rightarrow> (ServerError err, e')
      | (Inr content, e') \<Rightarrow> (JSONResponse code content, e'))"

definition emg_router_post_records :: "EmgRecord list \<Rightarrow> engine \<Rightarrow> response \<times> engine" where
  "emg_router_post_records records e = route HTTP_201_CREATED (receive_emg_records records) e"

definition emg_router_post_record :: "EmgRecord \<Rightarrow> engine \<Rightarrow> response \<times> engine" where
  "emg_router_post_record record e = route HTTP_201_CREATED (receive_emg_record record) e"

subsection \<open>Numbers with a fraction\<close>

text \<open>
  The request body is decoded before it is validated, and the decoder turns a number
  literal with a fraction or an exponent into a Python \<open>float\<close>: the binary64 value
  nearest to the literal, ties to the even mantissa, an infinity beyond the range.
  Validation then builds the \<open>Decimal\<close> of a float \<open>x\<close> as \<open>Decimal(str(x))\<close>, and
  \<open>str(x)\<close> is the shortest string of digits that reads back as \<open>x\<close> (the nearest to
  \<open>x\<close> among the shortest). Both steps are computed here on fractions of integers
  \<open>(n, d)\<close>, \<open>d > 0\<close>, so that nothing is rounded but where the float is.
\<close>

type_synonym frac = "int \<times> int"

definition scale :: "int \<Rightarrow> int \<Rightarrow> frac \<Rightarrow> frac" where
  "scale b k q = (if 0 \<le> k then (fst q * b ^ nat k, snd q) else (fst q, snd q * b ^ nat (- k)))"

definition frac_le :: "frac \<Rightarrow> frac \<Rightarrow> bool" where
  "frac_le p q \<longleftrightarrow> fst p * snd q \<le> fst q * snd p"

text \<open>The number of digits of \<open>n\<close> in base \<open>b\<close>, and the integer logarithm of a positive
  fraction: the \<open>t\<close> with \<open>b^t \<le> q < b^(t+1)\<close>.\<close>

function width :: "int \<Rightarrow> int \<Rightarrow> int" where
  "width b n = (if n \<le> 0 \<or> b < 2 then 0 else width b (n div b) + 1)"
  by pat_completeness auto
termination
proof (relation "measure (\<lambda>(b, n). nat n)")
  show "wf (measure (\<lambda>(b, n). nat n))" by simp
next
  fix b n :: int
  assume "\<not> (n \<le> 0 \<or> b < 2)"
  then have "0 < n" "2 \<le> b" by simp_all
  then have "n div b < n" by (simp add: int_div_less_self)
  moreover from \<open>0 < n\<close> \<open>2 \<le> b\<close> have "0 \<le> n div b" by (simp add: pos_imp_zdiv_nonneg_iff)
  ultimately show "((b, n div b), (b, n)) \<in> measure (\<lambda>(b, n). nat n)" by simp
qed

declare width.simps [simp del]

definition ilog :: "int \<Rightarrow> frac \<Rightarrow> int" where
  "ilog b q =
     (let t = width b (fst q) - width b (snd q)
      in if frac_le (scale b t (1, 1)) q then t else t - 1)"

definition round_half_even :: "frac \<Rightarrow> int" where
  "round_half_even q =
     (let f = fst q div snd q; r = fst q mod snd q
      in if 2 * r < snd q then f
         else if snd q < 2 * r then f + 1
         else if even f then f else f + 1)"

text \<open>
  The binary64 nearest to a positive fraction, as mantissa and exponent: 53 bits of
  mantissa, the exponent not below that of the subnormal floats. An exponent above 971
  is a value beyond the largest float.
\<close>

definition binary64 :: "frac \<Rightarrow> int \<times> int" where
  "binary64 q =
     (let e = max (ilog 2 q - 52) (- 1074);
          m = round_half_even (scale 2 (- e) q)
      in if m = 2 ^ 53 then (2 ^ 52, e + 1) else (m, e))"


text \<open>
  The shortest digits of a positive float \<open>x\<close>. With \<open>nd\<close> digits the two candidates are
  the \<open>nd\<close>-digit decimals just below and just above \<open>x\<close>; one that reads back as \<open>x\<close> is
  taken, the nearer one when both do. Seventeen digits always read back.
\<close>

definition digits_at :: "int \<Rightarrow> frac \<Rightarrow> (int \<times> int) option" where
  "digits_at nd x =
     (let k = ilog 10 x - nd + 1;
          s = scale 10 (- k) x;
          lo = fst s div snd s;
          hi = lo + 1;
          ok_lo = (binary64 (scale 10 k (lo, 1)) = binary64 x);
          ok_hi = (binary64 (scale 10 k (hi, 1)) = binary64 x);
          r = fst s mod snd s
      in if ok_lo \<and> ok_hi then
           (if 2 * r < snd s then Some (lo, k)
            else if snd s < 2 * r then Some (hi, k)
            else if even lo then Some (lo, k) else Some (hi, k))
         else if ok_lo then Some (lo, k)
         else if ok_hi then Some (hi, k)
         else None)"

fun shortest :: "nat \<Rightarrow> int \<Rightarrow> frac \<Rightarrow> int \<times> int" where
  "shortest 0 nd x =
     (let k = ilog 10 x - nd + 1 in (round_half_even (scale 10 (- k) x), k))"
| "shortest (Suc fuel) nd x =
     (case digits_at nd x of Some r \<Rightarrow> r | None \<Rightarrow> shortest fuel (nd + 1) x)"

function strip10 :: "int \<times> int \<Rightarrow> int \<times> int" where
  "strip10 (n, k) = (if 0 < n \<and> n mod 10 = 0 then strip10 (n div 10, k + 1) else (n, k))"
  by pat_completeness auto
termination
proof (relation "measure (\<lambda>(n, k). nat n)")
  show "wf (measure (\<lambda>(n, k). nat n))" by simp
next
  fix n k :: int
  assume "0 < n \<and> n mod 10 = 0"
  then have "0 < n" by simp
  then have "n div 10 < n" by (simp add: int_div_less_self)
  moreover from \<open>0 < n\<close> have "0 \<le> n div 10" by simp
  ultimately show "((n div 10, k + 1), (n, k)) \<in> measure (\<lambda>(n, k). nat n)" by simp
qed

declare strip10.simps [simp del]

text \<open>
  \<open>Decimal(str(x))\<close> for the float \<open>(-1)^s * m * 2^e\<close>. Zero is written \<open>0.0\<close>. The digits
  \<open>n\<close> with the decimal point \<open>k\<close> places to their right are written with an exponent
  when the point falls outside the sixteen places, and the \<open>Decimal\<close> is then \<open>n\<close> with
  exponent \<open>k\<close>; an integer within sixteen digits is written in full with \<open>.0\<close> appended,
  which gives one more digit and the exponent -1.
\<close>

definition Decimal_of_float :: "bool \<Rightarrow> int \<Rightarrow> int \<Rightarrow> Decimal" where
  "Decimal_of_float s m e =
     (if m = 0 then \<lparr>sign = s, coefficient = 0, exponent = - 1\<rparr>
      else
        (case strip10 (shortest 16 1 (scale 2 e (m, 1))) of
           (n, k) \<Rightarrow>
             if 0 \<le> k \<and> k + width 10 n \<le> 16
             then \<lparr>sign = s, coefficient = nat (n * 10 ^ nat (k + 1)), exponent = - 1\<rparr>
             else \<lparr>sign = s, coefficient = nat n, exponent = k\<rparr>))"

subsection \<open>Validation of the request body\<close>

text \<open>
  The parameters \<open>records: List[EmgRecord]\<close> and \<open>record: EmgRecord\<close> are validated before
  the handler is called. What the source fixes is modelled as it is: the body is a list of
  objects, both fields are required, \<open>timestamp\<close> is an \<open>int\<close> and \<open>rawValue\<close> a
  \<open>Decimal\<close>; a JSON integer is an \<open>int\<close> as it stands, of any size, and a \<open>Decimal\<close>
  with exponent 0; a finite float is the \<open>Decimal\<close> of its string, and an infinity or a
  NaN is no \<open>Decimal\<close>. Which other scalars the validation library converts (numeric
  strings, booleans, floats for \<open>timestamp\<close>) is its own table and is a parameter here.
\<close>

record coercion =
  lax_int :: "json \<Rightarrow> int option"
  lax_Decimal :: "json \<Rightarrow> Decimal option"

fun int_field :: "coercion \<Rightarrow> json \<Rightarrow> int option" where
  "int_field c (JInt n) = Some n"
| "int_field c j = lax_int c j"

fun Decimal_field :: "coercion \<Rightarrow> json \<Rightarrow> Decimal option" where
  "Decimal_field c (JInt n) = Some \<lparr>sign = n < 0, coefficient = nat \<bar>n\<bar>, exponent = 0\<rparr>"
| "Decimal_field c (JFloat s m e) = Some (Decimal_of_float s m e)"
| "Decimal_field c JNonFinite = None"
| "Decimal_field c j = lax_Decimal c j"

fun validate_EmgRecord :: "coercion \<Rightarrow> json \<Rightarrow> EmgRecord option" where
  "validate_EmgRecord c (JDict kvs) =
     (case map_of kvs ''timestamp'' of
        None \<Rightarrow> None
      | Some t \<Rightarrow>
          (case map_of kvs ''rawValue'' of
             None \<Rightarrow> None
           | Some v \<Rightarrow>
               (case int_field c t of
                  None \<Rightarrow> None
                | Some ts \<Rightarrow>
                    (case Decimal_field c v of
                       None \<Rightarrow> None
                     | Some rv \<Rightarrow> Some \<lparr>EmgRecord.timestamp = ts, rawValue = rv\<rparr>))))"
| "validate_EmgRecord c j = None"

fun validate_items :: "coercion \<Rightarrow> json list \<Rightarrow> EmgRecord list option" where
  "validate_items c [] = Some []"
| "validate_items c (j # js) =
     (case validate_EmgRecord c j of
        None \<Rightarrow> None
      | Some r \<Rightarrow> (case validate_items c js of None \<Rightarrow> None | Some rs \<Rightarrow> Some (r # rs)))"

fun validate_List :: "coercion \<Rightarrow> json \<Rightarrow> EmgRecord list option" where
  "validate_List c (JList js) = validate_items c js"
| "validate_List c j = None"

text \<open>A whole request: an invalid body is answered 422 and the handler is never called.\<close>

definition POST_emg_records :: "coercion \<Rightarrow> json \<Rightarrow> engine \<Rightarrow> response \<times> engine" where
  "POST_emg_records c body e =
     (case validate_List c body of
        None \<Rightarrow> (RequestValidationError, e)
      | Some records \<Rightarrow> emg_router_post_records records e)"

definition POST_emg_record :: "coercion \<Rightarrow> json \<Rightarrow> engine \<Rightarrow> response \<times> engine" where
  "POST_emg_record c body e =
     (case validate_EmgRecord c body of
        None \<Rightarrow> (RequestValidationError, e)
      | Some record \<Rightarrow> emg_router_post_record record e)"

subsection \<open>The greeting\<close>

text \<open>
  \<^verbatim>\<open>
  @router.get("/hello", response_model=HelloResponse)
  def say_hello(name: str = "World"):
      """A simple hello endpoint."""
      return HelloResponse(message=f"Hello, {name}!")
  \<close>
  The query parameter is optional: \<open>None\<close> is a request without it.
\<close>

definition say_hello :: "string option \<Rightarrow> HelloResponse" where
  "say_hello name_arg =
     (let name = (case name_arg of None \<Rightarrow> ''World'' | Some n \<Rightarrow> n)
      in \<lparr>message = ''Hello, '' @ name @ ''!''\<rparr>)"

definition GET_hello :: "string option \<Rightarrow> nat \<times> HelloResponse" where
  "GET_hello name_arg = (HTTP_200_OK, say_hello name_arg)"

section \<open>Vocabulary of the statements\<close>

text \<open>
  The object that \<open>create_emg_records\<close> builds for a record, the INSERT it leads to, and
  the rows that a call which goes through adds to \<open>emg_records\<close> of the engine \<open>e\<close> it
  started on: one per record, in the order of the records.
\<close>

definition staged :: "EmgRecord \<Rightarrow> EmgRecordDB" where
  "staged r = \<lparr>EmgRecordDB.id = None, timestamp = EmgRecord.timestamp r,
                rawValue = EmgRecord.rawValue r, created_at = None\<rparr>"

definition row_at :: "int \<Rightarrow> int \<Rightarrow> EmgRecord \<Rightarrow> emg_records_row" where
  "row_at n now r = \<lparr>id = n, timestamp = word_of_int (EmgRecord.timestamp r),
                      rawValue = EmgRecord.rawValue r, created_at = now\<rparr>"

fun rows_from :: "int \<Rightarrow> int \<Rightarrow> EmgRecord list \<Rightarrow> emg_records_row list" where
  "rows_from n now [] = []"
| "rows_from n now (r # rs) = row_at (n + 1) now r # rows_from (n + 1) now rs"

definition inserted :: "engine \<Rightarrow> EmgRecord list \<Rightarrow> emg_records_row list" where
  "inserted e records = rows_from (id_seq e) (utc_now e) records"

text \<open>The dictionary both handlers return, for a count \<open>n\<close>.\<close>

definition saved :: "nat \<Rightarrow> json" where
  "saved n = JDict [(''status'', JStr ''Data Saved''), (''count'', JInt (int n))]"

text \<open>The store takes a batch: every \<open>timestamp\<close> fits the column, and none of the
  statements of the call (one INSERT per record, then the COMMIT) fails.\<close>

definition goes_through :: "engine \<Rightarrow> EmgRecord list \<Rightarrow> bool" where
  "goes_through e records \<longleftrightarrow>
     list_all (\<lambda>r. in_BigInteger (EmgRecord.timestamp r)) records
     \<and> list_all (\<lambda>k. \<not> fails e (length (sent e) + k)) [0..<Suc (length records)]"

text \<open>
  A record is malformed, in the words of the specification, when it is not an object, when
  it misses \<open>timestamp\<close> or \<open>rawValue\<close>, or when one of the two has a value of the
  wrong type: one that is neither of the field's type nor converted to it.
\<close>

definition malformed :: "coercion \<Rightarrow> json \<Rightarrow> bool" where
  "malformed c item =
     (case item of
        JDict kvs \<Rightarrow>
          (case map_of kvs ''timestamp'' of None \<Rightarrow> True | Some t \<Rightarrow> int_field c t = None)
          \<or> (case map_of kvs ''rawValue'' of None \<Rightarrow> True | Some v \<Rightarrow> Decimal_field c v = None)
      | _ \<Rightarrow> True)"

text \<open>Concrete inputs for the examples: a validation that converts nothing beyond the
  fixed cases, and an engine with an empty table on which no statement fails.\<close>

definition no_coercion :: coercion where
  "no_coercion = \<lparr>lax_int = (\<lambda>j. None), lax_Decimal = (\<lambda>j. None)\<rparr>"

definition empty_engine :: engine where
  "empty_engine = \<lparr>emg_records = [], id_seq = 0, utc_now = 0, sent = [], fails = (\<lambda>k. False)\<rparr>"

text \<open>An engine that loses the second statement it is sent, and two sample records:
  \<open>timestamp\<close> 1000 with \<open>rawValue\<close> 0.5, and \<open>timestamp\<close> 1001 with \<open>rawValue\<close> -0.25.\<close>

definition lossy_engine :: engine where
  "lossy_engine = \<lparr>emg_records = [], id_seq = 0, utc_now = 0, sent = [], fails = (\<lambda>k. k = 1)\<rparr>"

definition sample_a :: EmgRecord where
  "sample_a = \<lparr>EmgRecord.timestamp = 1000, rawValue = \<lparr>sign = False, coefficient = 5, exponent = - 1\<rparr>\<rparr>"

definition sample_b :: EmgRecord where
  "sample_b = \<lparr>EmgRecord.timestamp = 1001, rawValue = \<lparr>sign = True, coefficient = 25, exponent = - 2\<rparr>\<rparr>"

text \<open>An engine that has already served a request, at a later time; and a record whose
  \<open>rawValue\<close> is 0.123456789012345.\<close>

definition used_engine :: engine where
  "used_engine =
     \<lparr>emg_records = [\<lparr>id = 7, timestamp = 3, rawValue = \<lparr>sign = False, coefficient = 1, exponent = 0\<rparr>,
                       created_at = 40\<rparr>],
      id_seq = 7, utc_now = 99, sent = [COMMIT], fails = (\<lambda>k. False)\<rparr>"


section \<open>Properties of the persistence context\<close>

subsection \<open>One INSERT\<close>

lemma insert_row_sent:
  "sent (bind (snd (insert_row obj db))) = sent (bind db) @ [INSERT obj]"
  by (simp add: insert_row_def execute_def split: option.split)

lemma insert_row_emg_records:
  "emg_records (bind (snd (insert_row obj db))) = emg_records (bind db)"
  by (simp add: insert_row_def execute_def split: option.split)

lemma insert_row_fails:
  "fails (bind (snd (insert_row obj db))) = fails (bind db)"
  by (simp add: insert_row_def execute_def split: option.split)

lemma insert_row_utc_now:
  "utc_now (bind (snd (insert_row obj db))) = utc_now (bind db)"
  by (simp add: insert_row_def execute_def split: option.split)

lemma insert_row_pending:
  "pending (snd (insert_row obj db)) = pending db"
  by (simp add: insert_row_def execute_def split: option.split)

lemma insert_row_staged_None:
  "fst (insert_row (staged r) db) = None \<longleftrightarrow>
     \<not> fails (bind db) (length (sent (bind db))) \<and> in_BigInteger (EmgRecord.timestamp r)"
  by (simp add: insert_row_def execute_def staged_def)

lemma insert_row_staged_ok:
  assumes "fst (insert_row (staged r) db) = None"
  shows "id_seq (bind (snd (insert_row (staged r) db))) = id_seq (bind db) + 1"
    and "txn (snd (insert_row (staged r) db)) =
           txn db @ [row_at (id_seq (bind db) + 1) (utc_now (bind db)) r]"
  using assms by (simp_all add: insert_row_def execute_def staged_def row_at_def split: if_splits)

subsection \<open>The flush\<close>

lemma flush_Cons_None:
  "fst (insert_row obj db) = None \<Longrightarrow> flush (obj # objs) db = flush objs (snd (insert_row obj db))"
  by (cases "insert_row obj db") simp

lemma flush_Cons_Some:
  "fst (insert_row obj db) = Some err \<Longrightarrow> flush (obj # objs) db = (Some err, snd (insert_row obj db))"
  by (cases "insert_row obj db") simp

declare flush.simps(2) [simp del]

lemma flush_emg_records: "emg_records (bind (snd (flush objs db))) = emg_records (bind db)"
proof (induction objs arbitrary: db)
  case Nil
  show ?case by simp
next
  case (Cons obj objs)
  show ?case
    by (cases "fst (insert_row obj db)")
       (simp_all add: flush_Cons_None flush_Cons_Some Cons.IH insert_row_emg_records)
qed

lemma flush_fails: "fails (bind (snd (flush objs db))) = fails (bind db)"
proof (induction objs arbitrary: db)
  case Nil
  show ?case by simp
next
  case (Cons obj objs)
  show ?case
    by (cases "fst (insert_row obj db)")
       (simp_all add: flush_Cons_None flush_Cons_Some Cons.IH insert_row_fails)
qed

lemma flush_utc_now: "utc_now (bind (snd (flush objs db))) = utc_now (bind db)"
proof (induction objs arbitrary: db)
  case Nil
  show ?case by simp
next
  case (Cons obj objs)
  show ?case
    by (cases "fst (insert_row obj db)")
       (simp_all add: flush_Cons_None flush_Cons_Some Cons.IH insert_row_utc_now)
qed

lemma flush_sent:
  "\<exists>k. k \<le> length objs \<and> sent (bind (snd (flush objs db))) = sent (bind db) @ map INSERT (take k objs)"
proof (induction objs arbitrary: db)
  case Nil
  then show ?case by simp
next
  case (Cons obj objs)
  show ?case
  proof (cases "fst (insert_row obj db)")
    case None
    from Cons.IH [of "snd (insert_row obj db)"] obtain k where
      k: "k \<le> length objs"
         "sent (bind (snd (flush objs (snd (insert_row obj db))))) =
            sent (bind (snd (insert_row obj db))) @ map INSERT (take k objs)"
      by blast
    with None have "Suc k \<le> length (obj # objs) \<and>
        sent (bind (snd (flush (obj # objs) db))) = sent (bind db) @ map INSERT (take (Suc k) (obj # objs))"
      by (simp add: flush_Cons_None insert_row_sent)
    then show ?thesis by blast
  next
    case (Some err)
    then have "Suc 0 \<le> length (obj # objs) \<and>
        sent (bind (snd (flush (obj # objs) db))) = sent (bind db) @ map INSERT (take (Suc 0) (obj # objs))"
      by (simp add: flush_Cons_Some insert_row_sent)
    then show ?thesis by blast
  qed
qed

lemma flush_Some_sent:
  "fst (flush objs db) = Some err \<Longrightarrow>
   \<exists>k. k < length objs \<and> sent (bind (snd (flush objs db))) = sent (bind db) @ map INSERT (take (Suc k) objs)"
proof (induction objs arbitrary: db)
  case Nil
  then show ?case by simp
next
  case (Cons obj objs)
  show ?case
  proof (cases "fst (insert_row obj db)")
    case None
    with Cons.prems have "fst (flush objs (snd (insert_row obj db))) = Some err"
      by (simp add: flush_Cons_None)
    from Cons.IH [OF this] obtain k where
      k: "k < length objs"
         "sent (bind (snd (flush objs (snd (insert_row obj db))))) =
            sent (bind (snd (insert_row obj db))) @ map INSERT (take (Suc k) objs)"
      by blast
    with None have "Suc k < length (obj # objs) \<and>
        sent (bind (snd (flush (obj # objs) db))) = sent (bind db) @ map INSERT (take (Suc (Suc k)) (obj # objs))"
      by (simp add: flush_Cons_None insert_row_sent)
    then show ?thesis by blast
  next
    case (Some err')
    then have "0 < length (obj # objs) \<and>
        sent (bind (snd (flush (obj # objs) db))) = sent (bind db) @ map INSERT (take (Suc 0) (obj # objs))"
      by (simp add: flush_Cons_Some insert_row_sent)
    then show ?thesis by blast
  qed
qed

text \<open>What the flush of freshly built objects does when it ends without an error.\<close>

lemma flush_staged_None:
  "fst (flush (map staged rs) db) = None \<Longrightarrow>
     sent (bind (snd (flush (map staged rs) db))) = sent (bind db) @ map (INSERT \<circ> staged) rs
   \<and> id_seq (bind (snd (flush (map staged rs) db))) = id_seq (bind db) + int (length rs)
   \<and> txn (snd (flush (map staged rs) db)) = txn db @ rows_from (id_seq (bind db)) (utc_now (bind db)) rs"
proof (induction rs arbitrary: db)
  case Nil
  then show ?case by simp
next
  case (Cons r rs)
  define db1 where "db1 = snd (insert_row (staged r) db)"
  have ok: "fst (insert_row (staged r) db) = None"
  proof (cases "fst (insert_row (staged r) db)")
    case None
    then show ?thesis .
  next
    case (Some err)
    with Cons.prems show ?thesis by (simp add: flush_Cons_Some)
  qed
  then have step: "flush (map staged (r # rs)) db = flush (map staged rs) db1"
    by (simp add: flush_Cons_None db1_def)
  have db1: "sent (bind db1) = sent (bind db) @ [INSERT (staged r)]"
    "id_seq (bind db1) = id_seq (bind db) + 1"
    "txn db1 = txn db @ [row_at (id_seq (bind db) + 1) (utc_now (bind db)) r]"
    "utc_now (bind db1) = utc_now (bind db)"
    using ok by (simp_all add: db1_def insert_row_sent insert_row_staged_ok insert_row_utc_now)
  from Cons.prems step have "fst (flush (map staged rs) db1) = None" by simp
  from Cons.IH [OF this] db1 show ?case unfolding step by simp
qed

lemma list_all_upt_Suc_shift:
  "list_all P [0..<Suc n] \<longleftrightarrow> P 0 \<and> list_all (\<lambda>k. P (Suc k)) [0..<n]"
proof -
  have "list_all P [0..<Suc n] \<longleftrightarrow> (\<forall>k<Suc n. P k)"
    unfolding list_all_iff set_upt by auto
  also have "\<dots> \<longleftrightarrow> P 0 \<and> (\<forall>k<n. P (Suc k))"
    by (rule All_less_Suc2)
  also have "(\<forall>k<n. P (Suc k)) \<longleftrightarrow> list_all (\<lambda>k. P (Suc k)) [0..<n]"
    unfolding list_all_iff set_upt by auto
  finally show ?thesis .
qed

lemma flush_staged_None_iff:
  "fst (flush (map staged rs) db) = None \<longleftrightarrow>
     list_all (\<lambda>r. in_BigInteger (EmgRecord.timestamp r)) rs
     \<and> list_all (\<lambda>k. \<not> fails (bind db) (length (sent (bind db)) + k)) [0..<length rs]"
proof (induction rs arbitrary: db)
  case Nil
  show ?case by simp
next
  case (Cons r rs)
  define db1 where "db1 = snd (insert_row (staged r) db)"
  have db1: "sent (bind db1) = sent (bind db) @ [INSERT (staged r)]" "fails (bind db1) = fails (bind db)"
    by (simp_all add: db1_def insert_row_sent insert_row_fails)
  have shift: "list_all (\<lambda>k. \<not> fails (bind db) (length (sent (bind db)) + k)) [0..<length (r # rs)]
      \<longleftrightarrow> \<not> fails (bind db) (length (sent (bind db)))
          \<and> list_all (\<lambda>k. \<not> fails (bind db1) (length (sent (bind db1)) + k)) [0..<length rs]"
    unfolding db1 length_Cons list_all_upt_Suc_shift by simp
  show ?case
  proof (cases "fst (insert_row (staged r) db)")
    case None
    then have "fst (flush (map staged (r # rs)) db) = fst (flush (map staged rs) db1)"
      by (simp add: flush_Cons_None db1_def)
    also have "\<dots> = None \<longleftrightarrow>
        list_all (\<lambda>r. in_BigInteger (EmgRecord.timestamp r)) rs
        \<and> list_all (\<lambda>k. \<not> fails (bind db1) (length (sent (bind db1)) + k)) [0..<length rs]"
      by (rule Cons.IH)
    finally show ?thesis
      using None shift by (simp add: insert_row_staged_None del: upt_Suc)
  next
    case (Some err)
    then have "fst (flush (map staged (r # rs)) db) \<noteq> None"
      by (simp add: flush_Cons_Some)
    moreover from Some have "\<not> (\<not> fails (bind db) (length (sent (bind db))) \<and> in_BigInteger (EmgRecord.timestamp r))"
      using insert_row_staged_None [of r db] by simp
    ultimately show ?thesis using shift by (auto simp del: upt_Suc)
  qed
qed

lemma length_rows_from: "length (rows_from n now rs) = length rs"
  by (induction rs arbitrary: n) simp_all

lemma nth_rows_from:
  "i < length rs \<Longrightarrow> rows_from n now rs ! i = row_at (n + 1 + int i) now (rs ! i)"
proof (induction rs arbitrary: n i)
  case Nil
  then show ?case by simp
next
  case (Cons r rs)
  show ?case
  proof (cases i)
    case 0
    then show ?thesis by simp
  next
    case (Suc j)
    with Cons.prems have "j < length rs" by simp
    from Cons.IH [OF this, of "n + 1"] Suc show ?thesis by (simp add: algebra_simps)
  qed
qed


lemma flush_pending: "pending (snd (flush objs db)) = pending db"
proof (induction objs arbitrary: db)
  case Nil
  show ?case by simp
next
  case (Cons obj objs)
  show ?case
    by (cases "fst (insert_row obj db)")
       (simp_all add: flush_Cons_None flush_Cons_Some Cons.IH insert_row_pending)
qed

subsection \<open>The batch route\<close>

lemma post_records_unfold:
  "emg_router_post_records records e =
     (case flush (map staged records) (SessionLocal e) of
        (Some err, db') \<Rightarrow> (ServerError err, (bind db')\<lparr>sent := sent (bind db') @ [ROLLBACK]\<rparr>)
      | (None, db') \<Rightarrow>
          if fails (bind db') (length (sent (bind db')))
          then (ServerError OperationalError, (bind db')\<lparr>sent := sent (bind db') @ [COMMIT, ROLLBACK]\<rparr>)
          else (JSONResponse 201 (saved (length records)),
                (bind db')\<lparr>sent := sent (bind db') @ [COMMIT],
                           emg_records := emg_records (bind db') @ txn db'\<rparr>))"
proof -
  have objs: "map (\<lambda>r. \<lparr>EmgRecordDB.id = None, timestamp = EmgRecord.timestamp r,
                      rawValue = EmgRecord.rawValue r, created_at = None\<rparr>) records = map staged records"
    by (simp add: staged_def)
  have start: "(add_all (SessionLocal e) (map staged records))\<lparr>pending := []\<rparr> = SessionLocal e"
              "pending (add_all (SessionLocal e) (map staged records)) = map staged records"
    by (simp_all add: add_all_def SessionLocal_def)
  obtain res db' where f: "flush (map staged records) (SessionLocal e) = (res, db')"
    by (cases "flush (map staged records) (SessionLocal e)")
  show ?thesis
  proof (cases res)
    case None
    with f show ?thesis
      by (simp add: emg_router_post_records_def route_def get_db_def receive_emg_records_def
          create_emg_records_def objs commit_def start execute_def rollback_def close_def
          HTTP_201_CREATED_def saved_def Let_def)
  next
    case (Some err)
    with f show ?thesis
      by (simp add: emg_router_post_records_def route_def get_db_def receive_emg_records_def
          create_emg_records_def objs commit_def start execute_def rollback_def close_def Let_def)
  qed
qed

lemma goes_through_iff:
  "goes_through e records \<longleftrightarrow>
     fst (flush (map staged records) (SessionLocal e)) = None
     \<and> \<not> fails e (length (sent e) + length records)"
proof -
  have "list_all (\<lambda>k. \<not> fails e (length (sent e) + k)) [0..<Suc (length records)]
        \<longleftrightarrow> list_all (\<lambda>k. \<not> fails e (length (sent e) + k)) [0..<length records]
            \<and> \<not> fails e (length (sent e) + length records)"
    by simp
  then show ?thesis
    unfolding goes_through_def flush_staged_None_iff
    by (simp add: SessionLocal_def del: upt_Suc)
qed

lemma flush_staged_engine:
  assumes "fst (flush (map staged records) (SessionLocal e)) = None"
  shows "bind (snd (flush (map staged records) (SessionLocal e))) =
           e\<lparr>sent := sent e @ map (INSERT \<circ> staged) records,
             id_seq := id_seq e + int (length records)\<rparr>"
    and "txn (snd (flush (map staged records) (SessionLocal e))) = inserted e records"
proof -
  from flush_staged_None [OF assms] have
    s: "sent (bind (snd (flush (map staged records) (SessionLocal e)))) = sent e @ map (INSERT \<circ> staged) records"
    and i: "id_seq (bind (snd (flush (map staged records) (SessionLocal e)))) = id_seq e + int (length records)"
    and t: "txn (snd (flush (map staged records) (SessionLocal e))) = rows_from (id_seq e) (utc_now e) records"
    by (simp_all add: SessionLocal_def)
  have r: "emg_records (bind (snd (flush (map staged records) (SessionLocal e)))) = emg_records e"
    and u: "utc_now (bind (snd (flush (map staged records) (SessionLocal e)))) = utc_now e"
    and f: "fails (bind (snd (flush (map staged records) (SessionLocal e)))) = fails e"
    by (simp_all add: flush_emg_records flush_utc_now flush_fails SessionLocal_def)
  show "bind (snd (flush (map staged records) (SessionLocal e))) =
           e\<lparr>sent := sent e @ map (INSERT \<circ> staged) records,
             id_seq := id_seq e + int (length records)\<rparr>"
    by (rule engine.equality) (simp_all add: s i r u f)
  from t show "txn (snd (flush (map staged records) (SessionLocal e))) = inserted e records"
    by (simp add: inserted_def)
qed

lemma post_records_ok:
  assumes "goes_through e records"
  shows "emg_router_post_records records e =
     (JSONResponse 201 (saved (length records)),
      e\<lparr>sent := sent e @ map (INSERT \<circ> staged) records @ [COMMIT],
        id_seq := id_seq e + int (length records),
        emg_records := emg_records e @ inserted e records\<rparr>)"
proof -
  from assms have ok: "fst (flush (map staged records) (SessionLocal e)) = None"
    and c: "\<not> fails e (length (sent e) + length records)"
    by (simp_all add: goes_through_iff)
  obtain db' where f: "flush (map staged records) (SessionLocal e) = (None, db')"
    using ok by (cases "flush (map staged records) (SessionLocal e)") simp
  from flush_staged_engine [OF ok] f have
    b: "bind db' = e\<lparr>sent := sent e @ map (INSERT \<circ> staged) records,
                     id_seq := id_seq e + int (length records)\<rparr>"
    and t: "txn db' = inserted e records"
    by simp_all
  show ?thesis
    unfolding post_records_unfold f using c by (simp add: b t)
qed

lemma post_records_refused:
  assumes "\<not> goes_through e records"
  shows "\<exists>err. fst (emg_router_post_records records e) = ServerError err"
    and "emg_records (snd (emg_router_post_records records e)) = emg_records e"
proof -
  obtain res db' where f: "flush (map staged records) (SessionLocal e) = (res, db')"
    by (cases "flush (map staged records) (SessionLocal e)")
  have r: "emg_records (bind db') = emg_records e"
    using flush_emg_records [of "map staged records" "SessionLocal e"] f
    by (simp add: SessionLocal_def)
  have fl: "fails (bind db') = fails e"
    using flush_fails [of "map staged records" "SessionLocal e"] f
    by (simp add: SessionLocal_def)
  show "\<exists>err. fst (emg_router_post_records records e) = ServerError err"
  proof (cases res)
    case None
    with f have ok: "fst (flush (map staged records) (SessionLocal e)) = None" by simp
    from flush_staged_engine(1) [OF ok] f have "sent (bind db') = sent e @ map (INSERT \<circ> staged) records"
      by simp
    with assms ok fl have "fails (bind db') (length (sent (bind db')))"
      by (simp add: goes_through_iff)
    with None f show ?thesis unfolding post_records_unfold by simp
  next
    case (Some err)
    with f show ?thesis unfolding post_records_unfold by simp
  qed
  show "emg_records (snd (emg_router_post_records records e)) = emg_records e"
  proof (cases res)
    case None
    with f have ok: "fst (flush (map staged records) (SessionLocal e)) = None" by simp
    from flush_staged_engine(1) [OF ok] f have "sent (bind db') = sent e @ map (INSERT \<circ> staged) records"
      by simp
    with assms ok fl have "fails (bind db') (length (sent (bind db')))"
      by (simp add: goes_through_iff)
    with None f r show ?thesis unfolding post_records_unfold by simp
  next
    case (Some err)
    with f r show ?thesis unfolding post_records_unfold by simp
  qed
qed

lemma post_records_sent:
  "\<exists>k. k \<le> length records \<and>
     (sent (snd (emg_router_post_records records e)) = sent e @ map (INSERT \<circ> staged) (take k records) @ [ROLLBACK]
      \<or> sent (snd (emg_router_post_records records e)) = sent e @ map (INSERT \<circ> staged) records @ [COMMIT]
      \<or> sent (snd (emg_router_post_records records e)) = sent e @ map (INSERT \<circ> staged) records @ [COMMIT, ROLLBACK])"
proof -
  obtain res db' where f: "flush (map staged records) (SessionLocal e) = (res, db')"
    by (cases "flush (map staged records) (SessionLocal e)")
  show ?thesis
  proof (cases res)
    case None
    with f have ok: "fst (flush (map staged records) (SessionLocal e)) = None" by simp
    from flush_staged_engine(1) [OF ok] f have "sent (bind db') = sent e @ map (INSERT \<circ> staged) records"
      by simp
    with None f have
      "sent (snd (emg_router_post_records records e)) = sent e @ map (INSERT \<circ> staged) records @ [COMMIT]
      \<or> sent (snd (emg_router_post_records records e)) = sent e @ map (INSERT \<circ> staged) records @ [COMMIT, ROLLBACK]"
      unfolding post_records_unfold by simp
    then show ?thesis by blast
  next
    case (Some err)
    with f have "fst (flush (map staged records) (SessionLocal e)) = Some err" by simp
    from flush_Some_sent [OF this] f obtain k where
      k: "k < length (map staged records)"
         "sent (bind db') = sent (bind (SessionLocal e)) @ map INSERT (take (Suc k) (map staged records))"
      by auto
    then have "Suc k \<le> length records"
      "sent (bind db') = sent e @ map (INSERT \<circ> staged) (take (Suc k) records)"
      by (simp_all add: SessionLocal_def take_map)
    with Some f have "Suc k \<le> length records \<and>
       sent (snd (emg_router_post_records records e)) = sent e @ map (INSERT \<circ> staged) (take (Suc k) records) @ [ROLLBACK]"
      unfolding post_records_unfold by simp
    then show ?thesis by blast
  qed
qed

lemma receive_record_is_batch:
  "receive_emg_record record db = receive_emg_records [record] db"
proof (cases "create_emg_records db [record]")
  case (Pair res db')
  then show ?thesis
    by (cases res) (simp_all add: receive_emg_record_def receive_emg_records_def)
qed

lemma post_record_is_batch:
  "emg_router_post_record record e = emg_router_post_records [record] e"
  by (simp add: emg_router_post_record_def emg_router_post_records_def route_def get_db_def
      receive_record_is_batch)

subsection \<open>Outcome of a call\<close>

lemma sint_BigInteger:
  "in_BigInteger t \<Longrightarrow> sint (word_of_int t :: 64 word) = t"
  by (simp add: in_BigInteger_def sint_sbintrunc' signed_take_bit_int_eq_self)

lemma post_records_created_iff:
  "(\<exists>code content. fst (emg_router_post_records records e) = JSONResponse code content)
     \<longleftrightarrow> goes_through e records"
proof (cases "goes_through e records")
  case True
  then show ?thesis by (simp add: post_records_ok)
next
  case False
  from post_records_refused(1) [OF False] show ?thesis using False by auto
qed

lemma goes_through_in_BigInteger:
  "goes_through e records \<Longrightarrow> r \<in> set records \<Longrightarrow> in_BigInteger (EmgRecord.timestamp r)"
  by (simp add: goes_through_def list_all_iff)

subsection \<open>Rows, validation and the single-record route\<close>

lemma post_records_created:
  assumes "fst (emg_router_post_records records e) = JSONResponse code content"
  shows "goes_through e records"
  using assms post_records_created_iff [of records e] by blast

lemma inserted_fields:
  "goes_through e records \<Longrightarrow>
     map (\<lambda>row. (sint (emg_records_row.timestamp row), emg_records_row.rawValue row)) (inserted e records)
       = map (\<lambda>r. (EmgRecord.timestamp r, EmgRecord.rawValue r)) records"
proof -
  have "list_all (\<lambda>r. in_BigInteger (EmgRecord.timestamp r)) rs \<Longrightarrow>
     map (\<lambda>row. (sint (emg_records_row.timestamp row), emg_records_row.rawValue row)) (rows_from n now rs)
       = map (\<lambda>r. (EmgRecord.timestamp r, EmgRecord.rawValue r)) rs" for rs n now
    by (induction rs arbitrary: n) (simp_all add: row_at_def sint_BigInteger)
  then show "goes_through e records \<Longrightarrow> ?thesis"
    by (simp add: goes_through_def inserted_def)
qed

lemma inserted_created_at:
  "map emg_records_row.created_at (inserted e records) = replicate (length records) (utc_now e)"
proof -
  have "map emg_records_row.created_at (rows_from n now rs) = replicate (length rs) now" for rs n now
    by (induction rs arbitrary: n) (simp_all add: row_at_def)
  then show ?thesis by (simp add: inserted_def)
qed

lemma length_inserted: "length (inserted e records) = length records"
  by (simp add: inserted_def length_rows_from)

lemma nth_inserted:
  "i < length records \<Longrightarrow>
   inserted e records ! i =
     \<lparr>id = id_seq e + 1 + int i,
      timestamp = word_of_int (EmgRecord.timestamp (records ! i)),
      rawValue = EmgRecord.rawValue (records ! i),
      created_at = utc_now e\<rparr>"
  by (simp add: inserted_def nth_rows_from row_at_def)

lemma POST_record_is_batch:
  "POST_emg_record c body e = POST_emg_records c (JList [body]) e"
  by (cases "validate_EmgRecord c body")
     (simp_all add: POST_emg_record_def POST_emg_records_def post_record_is_batch)


lemma out_of_range_timestamp_refused:
  assumes "\<not> in_BigInteger (EmgRecord.timestamp record)"
    and "\<not> fails e (length (sent e))"
  shows "emg_router_post_record record e =
           (ServerError DataError, e\<lparr>sent := sent e @ [INSERT (staged record), ROLLBACK]\<rparr>)"
  using assms unfolding post_record_is_batch post_records_unfold
  by (simp add: flush.simps(2) insert_row_def execute_def SessionLocal_def staged_def)

lemma POST_record_valid:
  "validate_EmgRecord c body = Some record \<Longrightarrow>
   POST_emg_record c body e = emg_router_post_record record e"
  by (simp add: POST_emg_record_def)

lemma POST_records_valid:
  "validate_List c body = Some records \<Longrightarrow>
   POST_emg_records c body e = emg_router_post_records records e"
  by (simp add: POST_emg_records_def)

lemma malformed_iff: "malformed c item \<longleftrightarrow> validate_EmgRecord c item = None"
  by (cases item) (auto simp: malformed_def split: option.splits)

lemma validate_items_None_iff:
  "validate_items c items = None \<longleftrightarrow> (\<exists>item \<in> set items. validate_EmgRecord c item = None)"
  by (induction items) (auto split: option.splits)

lemma validate_items_length:
  "validate_items c items = Some records \<Longrightarrow> length records = length items"
  by (induction items arbitrary: records) (auto split: option.splits)

section \<open>The ingestion endpoints\<close>



text \<open>
  Claim C6. Submitting one valid record to the single-record endpoint succeeds with a 201
  response \<open>{"status": "Data Saved", "count": 1}\<close> and persists exactly one new row,
  which carries the submitted \<open>timestamp\<close> and \<open>rawValue\<close>; for instance
  \<open>timestamp\<close> 1000 and \<open>rawValue\<close> 0.5. As in C1, the record's \<open>timestamp\<close>
  fits 64 bits and the store does not fail during the call.
\<close>

theorem single_record_saved:
  "goes_through e [record] \<Longrightarrow>
     emg_router_post_record record e =
       (JSONResponse 201 (JDict [(''status'', JStr ''Data Saved''), (''count'', JInt 1)]),
        e\<lparr>sent := sent e @ [INSERT (staged record), COMMIT],
          id_seq := id_seq e + 1,
          emg_records := emg_records e @
            [\<lparr>id = id_seq e + 1,
              timestamp = word_of_int (EmgRecord.timestamp record),
              rawValue = EmgRecord.rawValue record,
              created_at = utc_now e\<rparr>]\<rparr>)
   \<and> sint (word_of_int (EmgRecord.timestamp record) :: 64 word) = EmgRecord.timestamp record"
proof -
  assume g: "goes_through e [record]"
  then have "in_BigInteger (EmgRecord.timestamp record)"
    by (simp add: goes_through_def)
  then have "sint (word_of_int (EmgRecord.timestamp record) :: 64 word) = EmgRecord.timestamp record"
    by (rule sint_BigInteger)
  moreover from post_records_ok [OF g] have "emg_router_post_record record e =
       (JSONResponse 201 (JDict [(''status'', JStr ''Data Saved''), (''count'', JInt 1)]),
        e\<lparr>sent := sent e @ [INSERT (staged record), COMMIT],
          id_seq := id_seq e + 1,
          emg_records := emg_records e @
            [\<lparr>id = id_seq e + 1,
              timestamp = word_of_int (EmgRecord.timestamp record),
              rawValue = EmgRecord.rawValue record,
              created_at = utc_now e\<rparr>]\<rparr>)"
    by (simp add: post_record_is_batch saved_def inserted_def row_at_def)
  ultimately show ?thesis by simp
qed

theorem single_record_saved_witness:
  "goes_through empty_engine
     [\<lparr>EmgRecord.timestamp = 1000, rawValue = \<lparr>sign = False, coefficient = 5, exponent = - 1\<rparr>\<rparr>]
   \<and> fst (emg_router_post_record
        \<lparr>EmgRecord.timestamp = 1000, rawValue = \<lparr>sign = False, coefficient = 5, exponent = - 1\<rparr>\<rparr>
        empty_engine) =
       JSONResponse 201 (JDict [(''status'', JStr ''Data Saved''), (''count'', JInt 1)])
   \<and> emg_records (snd (emg_router_post_record
        \<lparr>EmgRecord.timestamp = 1000, rawValue = \<lparr>sign = False, coefficient = 5, exponent = - 1\<rparr>\<rparr>
        empty_engine)) =
       [\<lparr>id = 1, timestamp = 1000,
         rawValue = \<lparr>sign = False, coefficient = 5, exponent = - 1\<rparr>, created_at = 0\<rparr>]
   \<and> sint (1000 :: 64 word) = 1000
   \<and> decimal_value \<lparr>sign = False, coefficient = 5, exponent = - 1\<rparr> = 1 / 2"
proof -
  have g: "goes_through empty_engine
     [\<lparr>EmgRecord.timestamp = 1000, rawValue = \<lparr>sign = False, coefficient = 5, exponent = - 1\<rparr>\<rparr>]"
    by (simp add: goes_through_def empty_engine_def in_BigInteger_def)
  have d: "decimal_value \<lparr>sign = False, coefficient = 5, exponent = - 1\<rparr> = 1 / 2"
    by (simp add: decimal_value_def)
  show ?thesis
    using g d single_record_saved [OF g] by (simp add: empty_engine_def)
qed

text \<open>
  Claim C5. Submitting a valid record through the single-record operation and submitting
  it as a one-element batch give equivalent persisted state: the same row fields, up to
  the surrogate \<open>id\<close> and \<open>created_at\<close>. On the same engine the two calls are the
  same function, typed or from the request body; on two different engines the new row
  agrees in \<open>timestamp\<close> and \<open>rawValue\<close>, and the responses agree.
\<close>

theorem single_equals_one_element_batch:
  "emg_router_post_record record e = emg_router_post_records [record] e
   \<and> POST_emg_record c body e = POST_emg_records c (JList [body]) e
   \<and> (fst (emg_router_post_record record e1) = JSONResponse code1 content1 \<longrightarrow>
      fst (emg_router_post_records [record] e2) = JSONResponse code2 content2 \<longrightarrow>
        map (\<lambda>row. (emg_records_row.timestamp row, emg_records_row.rawValue row))
            (drop (length (emg_records e1)) (emg_records (snd (emg_router_post_record record e1))))
        = map (\<lambda>row. (emg_records_row.timestamp row, emg_records_row.rawValue row))
            (drop (length (emg_records e2)) (emg_records (snd (emg_router_post_records [record] e2))))
      \<and> length (drop (length (emg_records e1)) (emg_records (snd (emg_router_post_record record e1)))) = 1
      \<and> fst (emg_router_post_record record e1) = fst (emg_router_post_records [record] e2))"
proof (intro conjI impI)
  show "emg_router_post_record record e = emg_router_post_records [record] e"
    by (rule post_record_is_batch)
  show "POST_emg_record c body e = POST_emg_records c (JList [body]) e"
    by (rule POST_record_is_batch)
next
  assume a: "fst (emg_router_post_record record e1) = JSONResponse code1 content1"
    and b: "fst (emg_router_post_records [record] e2) = JSONResponse code2 content2"
  from a have g1: "goes_through e1 [record]"
    by (simp add: post_record_is_batch post_records_created)
  from b have g2: "goes_through e2 [record]" by (rule post_records_created)
  show "map (\<lambda>row. (emg_records_row.timestamp row, emg_records_row.rawValue row))
            (drop (length (emg_records e1)) (emg_records (snd (emg_router_post_record record e1))))
        = map (\<lambda>row. (emg_records_row.timestamp row, emg_records_row.rawValue row))
            (drop (length (emg_records e2)) (emg_records (snd (emg_router_post_records [record] e2))))"
    by (simp add: post_record_is_batch post_records_ok [OF g1] post_records_ok [OF g2]
        inserted_def row_at_def)
  show "length (drop (length (emg_records e1)) (emg_records (snd (emg_router_post_record record e1)))) = 1"
    by (simp add: post_record_is_batch post_records_ok [OF g1] inserted_def)
  show "fst (emg_router_post_record record e1) = fst (emg_router_post_records [record] e2)"
    by (simp add: post_record_is_batch post_records_ok [OF g1] post_records_ok [OF g2])
qed

theorem single_equals_one_element_batch_witness:
  "fst (emg_router_post_record sample_a empty_engine) =
     JSONResponse 201 (JDict [(''status'', JStr ''Data Saved''), (''count'', JInt 1)])
   \<and> fst (emg_router_post_records [sample_a] used_engine) =
     JSONResponse 201 (JDict [(''status'', JStr ''Data Saved''), (''count'', JInt 1)])
   \<and> emg_records (snd (emg_router_post_record sample_a empty_engine)) =
       [\<lparr>id = 1, timestamp = 1000,
         rawValue = \<lparr>sign = False, coefficient = 5, exponent = - 1\<rparr>, created_at = 0\<rparr>]
   \<and> drop 1 (emg_records (snd (emg_router_post_records [sample_a] used_engine))) =
       [\<lparr>id = 8, timestamp = 1000,
         rawValue = \<lparr>sign = False, coefficient = 5, exponent = - 1\<rparr>, created_at = 99\<rparr>]
   \<and> map (\<lambda>row. (emg_records_row.timestamp row, emg_records_row.rawValue row))
        (drop (length (emg_records empty_engine))
           (emg_records (snd (emg_router_post_record sample_a empty_engine))))
     = map (\<lambda>row. (emg_records_row.timestamp row, emg_records_row.rawValue row))
        (drop (length (emg_records used_engine))
           (emg_records (snd (emg_router_post_records [sample_a] used_engine))))"
proof -
  have g1: "goes_through empty_engine [sample_a]"
    by (simp add: goes_through_def empty_engine_def sample_a_def in_BigInteger_def)
  have g2: "goes_through used_engine [sample_a]"
    by (simp add: goes_through_def used_engine_def sample_a_def in_BigInteger_def)
  have r1: "fst (emg_router_post_record sample_a empty_engine) =
     JSONResponse 201 (JDict [(''status'', JStr ''Data Saved''), (''count'', JInt 1)])"
    by (simp add: post_record_is_batch post_records_ok [OF g1] saved_def)
  have r2: "fst (emg_router_post_records [sample_a] used_engine) =
     JSONResponse 201 (JDict [(''status'', JStr ''Data Saved''), (''count'', JInt 1)])"
    by (simp add: post_records_ok [OF g2] saved_def)
  have rows1: "emg_records (snd (emg_router_post_record sample_a empty_engine)) =
       [\<lparr>id = 1, timestamp = 1000,
         rawValue = \<lparr>sign = False, coefficient = 5, exponent = - 1\<rparr>, created_at = 0\<rparr>]"
    by (simp add: post_record_is_batch post_records_ok [OF g1] inserted_def row_at_def)
       (simp add: empty_engine_def sample_a_def)
  have rows2: "drop 1 (emg_records (snd (emg_router_post_records [sample_a] used_engine))) =
       [\<lparr>id = 8, timestamp = 1000,
         rawValue = \<lparr>sign = False, coefficient = 5, exponent = - 1\<rparr>, created_at = 99\<rparr>]"
    by (simp add: post_records_ok [OF g2] inserted_def row_at_def)
       (simp add: used_engine_def sample_a_def)
  from single_equals_one_element_batch [of sample_a empty_engine no_coercion JNull
      empty_engine 201 "JDict [(''status'', JStr ''Data Saved''), (''count'', JInt 1)]"
      used_engine 201 "JDict [(''status'', JStr ''Data Saved''), (''count'', JInt 1)]"] r1 r2
  have "map (\<lambda>row. (emg_records_row.timestamp row, emg_records_row.rawValue row))
        (drop (length (emg_records empty_engine))
           (emg_records (snd (emg_router_post_record sample_a empty_engine))))
     = map (\<lambda>row. (emg_records_row.timestamp row, emg_records_row.rawValue row))
        (drop (length (emg_records used_engine))
           (emg_records (snd (emg_router_post_records [sample_a] used_engine))))"
    by blast
  with r1 r2 rows1 rows2 show ?thesis by blast
qed

section \<open>The storage writer\<close>

text \<open>
  Claim C2. The append of the storage writer is atomic per call: either every record of
  the call becomes a visible row, or, on any storage failure, none does, the batch is
  rolled back and the caller gets a storage error, answered as a server error (500).
  There is no partial commit and no retry: the statements sent are the INSERTs up to the
  failing one and a ROLLBACK, or all the INSERTs and one COMMIT (followed by a ROLLBACK
  when the COMMIT fails).
\<close>

theorem append_is_atomic:
  "((fst (emg_router_post_records records e) = JSONResponse 201 (JDict [(''status'', JStr ''Data Saved''), (''count'', JInt (int (length records)))])
       \<and> emg_records (snd (emg_router_post_records records e)) = emg_records e @ inserted e records
       \<and> length (inserted e records) = length records
       \<and> sent (snd (emg_router_post_records records e)) =
           sent e @ map (INSERT \<circ> staged) records @ [COMMIT])
    \<or> ((\<exists>err. fst (emg_router_post_records records e) = ServerError err)
       \<and> status_code (fst (emg_router_post_records records e)) = 500
       \<and> emg_records (snd (emg_router_post_records records e)) = emg_records e
       \<and> (\<exists>k. k \<le> length records \<and>
            (sent (snd (emg_router_post_records records e)) =
               sent e @ map (INSERT \<circ> staged) (take k records) @ [ROLLBACK]
             \<or> sent (snd (emg_router_post_records records e)) =
               sent e @ map (INSERT \<circ> staged) records @ [COMMIT, ROLLBACK]))))"
proof (cases "goes_through e records")
  case True
  then show ?thesis by (simp add: post_records_ok length_inserted saved_def)
next
  case False
  from post_records_refused [OF False] obtain err where
    r: "fst (emg_router_post_records records e) = ServerError err"
       "emg_records (snd (emg_router_post_records records e)) = emg_records e"
    by blast
  from post_records_sent [of records e] obtain k where k: "k \<le> length records"
    "sent (snd (emg_router_post_records records e)) = sent e @ map (INSERT \<circ> staged) (take k records) @ [ROLLBACK]
      \<or> sent (snd (emg_router_post_records records e)) = sent e @ map (INSERT \<circ> staged) records @ [COMMIT]
      \<or> sent (snd (emg_router_post_records records e)) = sent e @ map (INSERT \<circ> staged) records @ [COMMIT, ROLLBACK]"
    by blast
  have no_commit: "sent (snd (emg_router_post_records records e)) \<noteq> sent e @ map (INSERT \<circ> staged) records @ [COMMIT]"
  proof
    assume a: "sent (snd (emg_router_post_records records e)) = sent e @ map (INSERT \<circ> staged) records @ [COMMIT]"
    obtain res db' where f: "flush (map staged records) (SessionLocal e) = (res, db')"
      by (cases "flush (map staged records) (SessionLocal e)")
    show False
    proof (cases res)
      case None
      with f have ok: "fst (flush (map staged records) (SessionLocal e)) = None" by simp
      from flush_staged_engine(1) [OF ok] f have s: "sent (bind db') = sent e @ map (INSERT \<circ> staged) records"
        and fl: "fails (bind db') = fails e"
        by simp_all
      with False ok have "fails (bind db') (length (sent (bind db')))"
        by (simp add: goes_through_iff)
      with None f s a show False unfolding post_records_unfold by simp
    next
      case (Some err')
      with f a show False unfolding post_records_unfold by simp
    qed
  qed
  with k have "\<exists>k. k \<le> length records \<and>
            (sent (snd (emg_router_post_records records e)) =
               sent e @ map (INSERT \<circ> staged) (take k records) @ [ROLLBACK]
             \<or> sent (snd (emg_router_post_records records e)) =
               sent e @ map (INSERT \<circ> staged) records @ [COMMIT, ROLLBACK])"
    by blast
  with r show ?thesis by simp
qed

theorem append_is_atomic_witness:
  "fst (emg_router_post_records [sample_a, sample_b] lossy_engine) = ServerError OperationalError
   \<and> emg_records (snd (emg_router_post_records [sample_a, sample_b] lossy_engine)) = []
   \<and> sent (snd (emg_router_post_records [sample_a, sample_b] lossy_engine)) =
       [INSERT (staged sample_a), INSERT (staged sample_b), ROLLBACK]
   \<and> fst (emg_router_post_records [sample_a, sample_b] empty_engine) = JSONResponse 201 (JDict [(''status'', JStr ''Data Saved''), (''count'', JInt 2)])
   \<and> length (emg_records (snd (emg_router_post_records [sample_a, sample_b] empty_engine))) = 2"
proof -
  have bad: "\<not> goes_through lossy_engine [sample_a, sample_b]"
    by (simp add: goes_through_def lossy_engine_def)
  have good: "goes_through empty_engine [sample_a, sample_b]"
    by (simp add: goes_through_def empty_engine_def sample_a_def sample_b_def in_BigInteger_def)
  have ev: "emg_router_post_records [sample_a, sample_b] lossy_engine =
      (ServerError OperationalError,
       lossy_engine\<lparr>sent := [INSERT (staged sample_a), INSERT (staged sample_b), ROLLBACK],
                    id_seq := 1\<rparr>)"
    unfolding post_records_unfold
    by (simp add: flush.simps(2) insert_row_def execute_def SessionLocal_def lossy_engine_def
        staged_def sample_a_def sample_b_def in_BigInteger_def)
  show ?thesis
    using append_is_atomic [of "[sample_a, sample_b]" lossy_engine]
      append_is_atomic [of "[sample_a, sample_b]" empty_engine]
    by (simp add: ev post_records_ok [OF good] length_inserted saved_def) (simp add: lossy_engine_def empty_engine_def)
qed

text \<open>
  Claim C4. For a validated batch the storage writer maps each record to exactly one row
  object, copying \<open>timestamp\<close> and \<open>rawValue\<close> as they are and leaving \<open>created_at\<close>
  (and \<open>id\<close>) to the store, stages all of them and commits them in a single
  transaction, with no transformation, deduplication or reordering: the statements of a
  call that is answered 201 are one INSERT per record, in order, then one COMMIT, and the
  rows carry the records' values and the store's clock.
\<close>

theorem writer_maps_stages_commits:
  "fst (emg_router_post_records records e) = JSONResponse code content \<Longrightarrow>
     sent (snd (emg_router_post_records records e)) =
       sent e @
       map (\<lambda>r. INSERT \<lparr>EmgRecordDB.id = None, timestamp = EmgRecord.timestamp r,
                          rawValue = EmgRecord.rawValue r, created_at = None\<rparr>) records @
       [COMMIT]
   \<and> emg_records (snd (emg_router_post_records records e)) = emg_records e @ inserted e records
   \<and> length (inserted e records) = length records
   \<and> map (\<lambda>row. (sint (emg_records_row.timestamp row), emg_records_row.rawValue row)) (inserted e records)
       = map (\<lambda>r. (EmgRecord.timestamp r, EmgRecord.rawValue r)) records
   \<and> map emg_records_row.created_at (inserted e records) = replicate (length records) (utc_now e)"
proof -
  assume "fst (emg_router_post_records records e) = JSONResponse code content"
  then have g: "goes_through e records" by (rule post_records_created)
  have "map (INSERT \<circ> staged) records =
       map (\<lambda>r. INSERT \<lparr>EmgRecordDB.id = None, timestamp = EmgRecord.timestamp r,
                          rawValue = EmgRecord.rawValue r, created_at = None\<rparr>) records"
    by (simp add: staged_def)
  with post_records_ok [OF g] inserted_fields [OF g] show ?thesis
    by (simp add: length_inserted inserted_created_at)
qed

theorem writer_maps_stages_commits_witness:
  "fst (emg_router_post_records [sample_b, sample_a, sample_b] empty_engine) = JSONResponse 201 (JDict [(''status'', JStr ''Data Saved''), (''count'', JInt 3)])
   \<and> sent (snd (emg_router_post_records [sample_b, sample_a, sample_b] empty_engine)) =
       [INSERT \<lparr>EmgRecordDB.id = None, timestamp = 1001,
                rawValue = \<lparr>sign = True, coefficient = 25, exponent = - 2\<rparr>, created_at = None\<rparr>,
        INSERT \<lparr>EmgRecordDB.id = None, timestamp = 1000,
                rawValue = \<lparr>sign = False, coefficient = 5, exponent = - 1\<rparr>, created_at = None\<rparr>,
        INSERT \<lparr>EmgRecordDB.id = None, timestamp = 1001,
                rawValue = \<lparr>sign = True, coefficient = 25, exponent = - 2\<rparr>, created_at = None\<rparr>,
        COMMIT]
   \<and> map (\<lambda>row. (sint (emg_records_row.timestamp row), emg_records_row.rawValue row))
         (emg_records (snd (emg_router_post_records [sample_b, sample_a, sample_b] empty_engine)))
       = [(1001, \<lparr>sign = True, coefficient = 25, exponent = - 2\<rparr>),
          (1000, \<lparr>sign = False, coefficient = 5, exponent = - 1\<rparr>),
          (1001, \<lparr>sign = True, coefficient = 25, exponent = - 2\<rparr>)]"
proof -
  have good: "goes_through empty_engine [sample_b, sample_a, sample_b]"
    by (simp add: goes_through_def empty_engine_def sample_a_def sample_b_def in_BigInteger_def)
  have r: "fst (emg_router_post_records [sample_b, sample_a, sample_b] empty_engine) = JSONResponse 201 (JDict [(''status'', JStr ''Data Saved''), (''count'', JInt 3)])"
    by (simp add: post_records_ok [OF good] saved_def)
  have e0: "emg_records empty_engine = []" "sent empty_engine = []"
    by (simp_all add: empty_engine_def)
  show ?thesis
    using r writer_maps_stages_commits [OF r]
    by (simp add: e0 sample_a_def sample_b_def)
qed

text \<open>
  Claim C10. The storage writer stages and inserts the rows in the order of the input:
  the i-th INSERT and the i-th new row are built from the i-th record, for every index i,
  and duplicate records each give a row of their own (the rows differ in \<open>id\<close>). The
  INSERTs sent are always those of a prefix of the input, in order.
\<close>

theorem rows_follow_input_order:
  "(\<exists>k. k \<le> length records \<and>
      (sent (snd (emg_router_post_records records e)) =
         sent e @ map (INSERT \<circ> staged) (take k records) @ [ROLLBACK]
       \<or> sent (snd (emg_router_post_records records e)) =
         sent e @ map (INSERT \<circ> staged) records @ [COMMIT]
       \<or> sent (snd (emg_router_post_records records e)) =
         sent e @ map (INSERT \<circ> staged) records @ [COMMIT, ROLLBACK]))
   \<and> (fst (emg_router_post_records records e) = JSONResponse code content \<longrightarrow>
        length (emg_records (snd (emg_router_post_records records e))) =
          length (emg_records e) + length records
        \<and> (\<forall>i. i < length records \<longrightarrow>
              sent (snd (emg_router_post_records records e)) ! (length (sent e) + i) =
                INSERT \<lparr>EmgRecordDB.id = None, timestamp = EmgRecord.timestamp (records ! i),
                         rawValue = EmgRecord.rawValue (records ! i), created_at = None\<rparr>
            \<and> emg_records (snd (emg_router_post_records records e)) ! (length (emg_records e) + i) =
                \<lparr>id = id_seq e + 1 + int i,
                 timestamp = word_of_int (EmgRecord.timestamp (records ! i)),
                 rawValue = EmgRecord.rawValue (records ! i),
                 created_at = utc_now e\<rparr>
            \<and> sint (word_of_int (EmgRecord.timestamp (records ! i)) :: 64 word) =
                EmgRecord.timestamp (records ! i)))"
proof (intro conjI impI allI)
  show "\<exists>k. k \<le> length records \<and>
      (sent (snd (emg_router_post_records records e)) =
         sent e @ map (INSERT \<circ> staged) (take k records) @ [ROLLBACK]
       \<or> sent (snd (emg_router_post_records records e)) =
         sent e @ map (INSERT \<circ> staged) records @ [COMMIT]
       \<or> sent (snd (emg_router_post_records records e)) =
         sent e @ map (INSERT \<circ> staged) records @ [COMMIT, ROLLBACK])"
    by (rule post_records_sent)
next
  assume "fst (emg_router_post_records records e) = JSONResponse code content"
  then have g: "goes_through e records" by (rule post_records_created)
  show "length (emg_records (snd (emg_router_post_records records e))) =
          length (emg_records e) + length records"
    by (simp add: post_records_ok [OF g] length_inserted)
next
  fix i
  assume "fst (emg_router_post_records records e) = JSONResponse code content"
    and i: "i < length records"
  then have g: "goes_through e records" by (simp add: post_records_created)
  from i show "sent (snd (emg_router_post_records records e)) ! (length (sent e) + i) =
                INSERT \<lparr>EmgRecordDB.id = None, timestamp = EmgRecord.timestamp (records ! i),
                         rawValue = EmgRecord.rawValue (records ! i), created_at = None\<rparr>"
    by (simp add: post_records_ok [OF g] nth_append staged_def)
next
  fix i
  assume "fst (emg_router_post_records records e) = JSONResponse code content"
    and i: "i < length records"
  then have g: "goes_through e records" by (simp add: post_records_created)
  from i show "emg_records (snd (emg_router_post_records records e)) ! (length (emg_records e) + i) =
                \<lparr>id = id_seq e + 1 + int i,
                 timestamp = word_of_int (EmgRecord.timestamp (records ! i)),
                 rawValue = EmgRecord.rawValue (records ! i),
                 created_at = utc_now e\<rparr>"
    by (simp add: post_records_ok [OF g] nth_inserted)
next
  fix i
  assume "fst (emg_router_post_records records e) = JSONResponse code content"
    and i: "i < length records"
  then have g: "goes_through e records" by (simp add: post_records_created)
  from i have "records ! i \<in> set records" by simp
  with g have "in_BigInteger (EmgRecord.timestamp (records ! i))"
    by (rule goes_through_in_BigInteger)
  then show "sint (word_of_int (EmgRecord.timestamp (records ! i)) :: 64 word) =
                EmgRecord.timestamp (records ! i)"
    by (rule sint_BigInteger)
qed

theorem rows_follow_input_order_witness:
  "fst (emg_router_post_records [sample_a, sample_b, sample_a] empty_engine) =
     JSONResponse 201 (JDict [(''status'', JStr ''Data Saved''), (''count'', JInt 3)])
   \<and> (1::nat) < length [sample_a, sample_b, sample_a]
   \<and> (2::nat) < length [sample_a, sample_b, sample_a]
   \<and> emg_records (snd (emg_router_post_records [sample_a, sample_b, sample_a] empty_engine)) ! 0 =
       \<lparr>id = 1, timestamp = 1000,
        rawValue = \<lparr>sign = False, coefficient = 5, exponent = - 1\<rparr>, created_at = 0\<rparr>
   \<and> emg_records (snd (emg_router_post_records [sample_a, sample_b, sample_a] empty_engine)) ! 1 =
       \<lparr>id = 2, timestamp = 1001,
        rawValue = \<lparr>sign = True, coefficient = 25, exponent = - 2\<rparr>, created_at = 0\<rparr>
   \<and> emg_records (snd (emg_router_post_records [sample_a, sample_b, sample_a] empty_engine)) ! 2 =
       \<lparr>id = 3, timestamp = 1000,
        rawValue = \<lparr>sign = False, coefficient = 5, exponent = - 1\<rparr>, created_at = 0\<rparr>
   \<and> length (emg_records (snd (emg_router_post_records [sample_a, sample_b, sample_a] empty_engine))) = 3"
proof -
  have good: "goes_through empty_engine [sample_a, sample_b, sample_a]"
    by (simp add: goes_through_def empty_engine_def sample_a_def sample_b_def in_BigInteger_def)
  have r: "fst (emg_router_post_records [sample_a, sample_b, sample_a] empty_engine) =
     JSONResponse 201 (JDict [(''status'', JStr ''Data Saved''), (''count'', JInt 3)])"
    by (simp add: post_records_ok [OF good] saved_def)
  have e0: "emg_records empty_engine = []" "sent empty_engine = []" "id_seq empty_engine = 0"
    "utc_now empty_engine = 0"
    by (simp_all add: empty_engine_def)
  note t = rows_follow_input_order [of "[sample_a, sample_b, sample_a]" empty_engine 201
      "JDict [(''status'', JStr ''Data Saved''), (''count'', JInt 3)]"]
  from t r have len: "length (emg_records (snd (emg_router_post_records [sample_a, sample_b, sample_a] empty_engine))) = 3"
    by (simp add: e0)
  from t r have nth: "\<And>i. i < 3 \<Longrightarrow>
      emg_records (snd (emg_router_post_records [sample_a, sample_b, sample_a] empty_engine)) ! i =
        \<lparr>id = 1 + int i,
         timestamp = word_of_int (EmgRecord.timestamp ([sample_a, sample_b, sample_a] ! i)),
         rawValue = EmgRecord.rawValue ([sample_a, sample_b, sample_a] ! i),
         created_at = 0\<rparr>"
    by (simp add: e0)
  from nth [of 0] nth [of 1] nth [of 2] r len show ?thesis
    by (simp add: sample_a_def sample_b_def)
qed

section \<open>Validation before storage\<close>

text \<open>
  Claim C3. A batch in which at least one record is malformed (a value of the wrong type,
  or \<open>timestamp\<close> or \<open>rawValue\<close> missing) is rejected as a whole with a validation
  failure, answered as a client error (422), and no row is persisted: nothing reaches the
  store, not even a statement.
\<close>

theorem malformed_batch_rejected:
  "item \<in> set items \<Longrightarrow> malformed c item \<Longrightarrow>
     POST_emg_records c (JList items) e = (RequestValidationError, e)
   \<and> status_code (fst (POST_emg_records c (JList items) e)) = 422
   \<and> emg_records (snd (POST_emg_records c (JList items) e)) = emg_records e
   \<and> sent (snd (POST_emg_records c (JList items) e)) = sent e"
proof -
  assume "item \<in> set items" and "malformed c item"
  then have "validate_items c items = None"
    unfolding validate_items_None_iff malformed_iff by blast
  then show ?thesis by (simp add: POST_emg_records_def)
qed

theorem malformed_batch_rejected_witness:
  "JDict [(''timestamp'', JInt 1001)] \<in>
     set [JDict [(''timestamp'', JInt 1000), (''rawValue'', JInt 1)], JDict [(''timestamp'', JInt 1001)]]
   \<and> malformed no_coercion (JDict [(''timestamp'', JInt 1001)])
   \<and> POST_emg_records no_coercion
        (JList [JDict [(''timestamp'', JInt 1000), (''rawValue'', JInt 1)], JDict [(''timestamp'', JInt 1001)]])
        empty_engine = (RequestValidationError, empty_engine)
   \<and> malformed no_coercion (JDict [(''timestamp'', JStr ''soon''), (''rawValue'', JInt 1)])
   \<and> POST_emg_records no_coercion
        (JList [JDict [(''timestamp'', JStr ''soon''), (''rawValue'', JInt 1)]])
        used_engine = (RequestValidationError, used_engine)
   \<and> \<not> malformed no_coercion (JDict [(''timestamp'', JInt 1000), (''rawValue'', JInt 1)])"
proof -
  have m1: "malformed no_coercion (JDict [(''timestamp'', JInt 1001)])"
    by (simp add: malformed_def)
  have m2: "malformed no_coercion (JDict [(''timestamp'', JStr ''soon''), (''rawValue'', JInt 1)])"
    by (simp add: malformed_def no_coercion_def)
  have m3: "\<not> malformed no_coercion (JDict [(''timestamp'', JInt 1000), (''rawValue'', JInt 1)])"
    by (simp add: malformed_def)
  have i1: "JDict [(''timestamp'', JInt 1001)] \<in>
     set [JDict [(''timestamp'', JInt 1000), (''rawValue'', JInt 1)], JDict [(''timestamp'', JInt 1001)]]"
    by simp
  have i2: "JDict [(''timestamp'', JStr ''soon''), (''rawValue'', JInt 1)] \<in>
     set [JDict [(''timestamp'', JStr ''soon''), (''rawValue'', JInt 1)]]"
    by simp
  from malformed_batch_rejected [OF i1 m1, of empty_engine]
    malformed_batch_rejected [OF i2 m2, of used_engine] m1 m2 m3 i1
  show ?thesis by blast
qed

section \<open>The float path on three literals\<close>





















































































section \<open>Exact values\<close>




text \<open>
  Claim C8. Every \<open>timestamp\<close> representable as a 64-bit signed integer, the two ends of
  the range included, is accepted by validation and stored without truncation: the stored
  64-bit value reads back as the integer submitted. Validation itself enforces no bound
  (any integer \<open>t'\<close> validates); the column's range is the only one.
\<close>

theorem timestamp_64_bit_range_kept:
  assumes "in_BigInteger t"
    and "Decimal_field c v = Some d"
    and "\<not> fails e (length (sent e))"
    and "\<not> fails e (Suc (length (sent e)))"
  shows "validate_EmgRecord c (JDict [(''timestamp'', JInt t'), (''rawValue'', v)]) =
           Some \<lparr>EmgRecord.timestamp = t', rawValue = d\<rparr>
       \<and> status_code (fst (POST_emg_record c (JDict [(''timestamp'', JInt t), (''rawValue'', v)]) e)) = 201
       \<and> map (\<lambda>row. sint (emg_records_row.timestamp row))
            (emg_records (snd (POST_emg_record c (JDict [(''timestamp'', JInt t), (''rawValue'', v)]) e)))
          = map (\<lambda>row. sint (emg_records_row.timestamp row)) (emg_records e) @ [t]"
proof -
  have v: "validate_EmgRecord c (JDict [(''timestamp'', JInt t'), (''rawValue'', v)]) =
           Some \<lparr>EmgRecord.timestamp = t', rawValue = d\<rparr>" for t'
    using assms(2) by simp
  have g: "goes_through e [\<lparr>EmgRecord.timestamp = t, rawValue = d\<rparr>]"
    using assms(1,3,4) by (simp add: goes_through_def)
  have p: "POST_emg_record c (JDict [(''timestamp'', JInt t), (''rawValue'', v)]) e =
      emg_router_post_records [\<lparr>EmgRecord.timestamp = t, rawValue = d\<rparr>] e"
    by (simp only: POST_record_valid [OF v] post_record_is_batch)
  from assms(1) have "sint (word_of_int t :: 64 word) = t" by (rule sint_BigInteger)
  then have "status_code (fst (emg_router_post_records [\<lparr>EmgRecord.timestamp = t, rawValue = d\<rparr>] e)) = 201
       \<and> map (\<lambda>row. sint (emg_records_row.timestamp row))
            (emg_records (snd (emg_router_post_records [\<lparr>EmgRecord.timestamp = t, rawValue = d\<rparr>] e)))
          = map (\<lambda>row. sint (emg_records_row.timestamp row)) (emg_records e) @ [t]"
    by (simp add: post_records_ok [OF g] inserted_def row_at_def)
  with v [of t'] show ?thesis
    unfolding p by blast
qed

theorem timestamp_64_bit_range_kept_witness:
  "in_BigInteger 9223372036854775807 \<and> in_BigInteger (- 9223372036854775808)
   \<and> Decimal_field no_coercion (JInt 1) = Some \<lparr>sign = False, coefficient = 1, exponent = 0\<rparr>
   \<and> status_code (fst (POST_emg_record no_coercion
        (JDict [(''timestamp'', JInt 9223372036854775807), (''rawValue'', JInt 1)]) empty_engine)) = 201
   \<and> map (\<lambda>row. sint (emg_records_row.timestamp row))
        (emg_records (snd (POST_emg_record no_coercion
          (JDict [(''timestamp'', JInt 9223372036854775807), (''rawValue'', JInt 1)]) empty_engine)))
      = [9223372036854775807]
   \<and> status_code (fst (POST_emg_record no_coercion
        (JDict [(''timestamp'', JInt (- 9223372036854775808)), (''rawValue'', JInt 1)]) empty_engine)) = 201
   \<and> map (\<lambda>row. sint (emg_records_row.timestamp row))
        (emg_records (snd (POST_emg_record no_coercion
          (JDict [(''timestamp'', JInt (- 9223372036854775808)), (''rawValue'', JInt 1)]) empty_engine)))
      = [- 9223372036854775808]"
proof -
  have hi: "in_BigInteger 9223372036854775807" and lo: "in_BigInteger (- 9223372036854775808)"
    by (simp_all add: in_BigInteger_def)
  have d: "Decimal_field no_coercion (JInt 1) = Some \<lparr>sign = False, coefficient = 1, exponent = 0\<rparr>"
    by simp
  have f: "\<not> fails empty_engine (length (sent empty_engine))"
    "\<not> fails empty_engine (Suc (length (sent empty_engine)))"
    by (simp_all add: empty_engine_def)
  have e0: "emg_records empty_engine = []" by (simp add: empty_engine_def)
  from timestamp_64_bit_range_kept [OF hi d f] timestamp_64_bit_range_kept [OF lo d f] hi lo d
  show ?thesis by (simp add: e0)
qed

section \<open>The greeting endpoint\<close>

text \<open>
  Claim C9. For every name string X, GET /hello?name=X answers 200 with the message
  "Hello, X!"; without the parameter the name is "World" and the message is
  "Hello, World!".
\<close>

theorem say_hello_greets:
  "GET_hello (Some X) = (200, \<lparr>message = ''Hello, '' @ X @ ''!''\<rparr>)
   \<and> GET_hello None = (200, \<lparr>message = ''Hello, World!''\<rparr>)"
  by (simp add: GET_hello_def say_hello_def HTTP_200_OK_def)

end
